theory Spec2Isabelle
  imports Complex_Main "HOL-Library.Sublist"
begin

section \<open>Fragmenter: \<open>services/chunking.py\<close>\<close>

text \<open>
  Text is a list of characters. The two regular expressions of the source only look at
  three character classes: the sentence terminators \<open>[.!?]\<close>, whitespace \<open>\s\<close> and
  word characters \<open>\w\<close>. They are given here for ASCII text (Python's \<open>\s\<close> on
  \<open>str\<close> also takes the separators \<open>0x1c..0x1f\<close>); a character outside ASCII counts
  as neither whitespace nor word character.
\<close>

definition is_terminal :: "char \<Rightarrow> bool" where
  "is_terminal c = (c = CHR ''.'' \<or> c = CHR ''!'' \<or> c = CHR ''?'')"

definition is_space :: "char \<Rightarrow> bool" where
  "is_space c = (let n = of_char c :: nat in n = 32 \<or> (9 \<le> n \<and> n \<le> 13) \<or> (28 \<le> n \<and> n \<le> 31))"

definition is_word :: "char \<Rightarrow> bool" where
  "is_word c = (let n = of_char c :: nat in
     (48 \<le> n \<and> n \<le> 57) \<or> (65 \<le> n \<and> n \<le> 90) \<or> (97 \<le> n \<and> n \<le> 122) \<or> n = 95)"

text \<open>
  \<open>re.findall(r'\b\w+\b', text)\<close>: the maximal runs of word characters, left to right.
\<close>

function findall_words :: "string \<Rightarrow> string list" where
  "findall_words [] = []"
| "findall_words (c # cs) =
     (if is_word c then (c # takeWhile is_word cs) # findall_words (dropWhile is_word cs)
      else findall_words cs)"
  by pat_completeness auto
termination
  by (relation "measure length") (auto simp: le_imp_less_Suc length_dropWhile_le)

definition estimate_tokens :: "string \<Rightarrow> nat" where
  "estimate_tokens text = length (findall_words text)"

text \<open>
  \<open>re.split(r'(?<=[.!?])\s+', text)\<close>: a separator is a maximal run of whitespace that
  directly follows a terminator; the pieces between separators are returned, so the
  result always has at least one piece (the empty string gives one empty piece).
  \<open>acc\<close> is the piece read so far.
\<close>

function split_sentences_from :: "string \<Rightarrow> string \<Rightarrow> string list" where
  "split_sentences_from acc [] = [acc]"
| "split_sentences_from acc (c # cs) =
     (if is_terminal c \<and> cs \<noteq> [] \<and> is_space (hd cs)
      then (acc @ [c]) # split_sentences_from [] (dropWhile is_space cs)
      else split_sentences_from (acc @ [c]) cs)"
  by pat_completeness auto
termination
  by (relation "measure (\<lambda>(acc, cs). length cs)") (auto simp: le_imp_less_Suc length_dropWhile_le)

definition split_sentences :: "string \<Rightarrow> string list" where
  "split_sentences text = split_sentences_from [] text"

text \<open>\<open>' '.join(units)\<close>\<close>

fun join_space :: "string list \<Rightarrow> string" where
  "join_space [] = []"
| "join_space [s] = s"
| "join_space (s # t # ss) = s @ '' '' @ join_space (t # ss)"

text \<open>
  A chunk dictionary. \<open>chunk_text\<close> writes the keys \<open>chunk_index\<close>, \<open>text\<close> (field \<open>content\<close>),
  \<open>token_count\<close> and \<open>document_id\<close>; \<open>page_number\<close> is absent (\<open>None\<close>) until
  \<open>chunk_with_page_info\<close> sets it.
\<close>

record chunk =
  chunk_index :: nat
  content :: string
  token_count :: nat
  document_id :: "int option"
  page_number :: "int option"

text \<open>
  The local variables of the loop in \<open>chunk_text\<close>. The parameters \<open>chunk_size\<close> and
  \<open>overlap\<close> of the functions below are the fields \<open>self.chunk_size\<close> and
  \<open>self.overlap\<close> of the service object, Python integers.
\<close>

record chunker =
  chunks :: "chunk list"
  current_chunk :: "string list"
  current_tokens :: nat
  next_index :: nat

definition make_chunk :: "nat \<Rightarrow> string list \<Rightarrow> nat \<Rightarrow> int option \<Rightarrow> chunk" where
  "make_chunk i units n d =
     \<lparr>chunk_index = i, content = join_space units, token_count = n, document_id = d, page_number = None\<rparr>"

text \<open>
  The inner loop \<open>for sent in reversed(current_chunk)\<close>: \<open>rs\<close> is what is left of the
  reversed unit list, \<open>acc\<close> is \<open>overlap_sentences\<close> and \<open>tok\<close> is \<open>overlap_tokens\<close>.
  The first unit that does not fit ends the walk (\<open>break\<close>).
\<close>

fun overlap_walk :: "int \<Rightarrow> string list \<Rightarrow> string list \<Rightarrow> nat \<Rightarrow> string list \<times> nat" where
  "overlap_walk overlap [] acc tok = (acc, tok)"
| "overlap_walk overlap (sent # rs) acc tok =
     (let sent_tokens = estimate_tokens sent in
      if int (tok + sent_tokens) \<le> overlap
      then overlap_walk overlap rs (sent # acc) (tok + sent_tokens)
      else (acc, tok))"

definition overlap_seed :: "int \<Rightarrow> string list \<Rightarrow> string list \<times> nat" where
  "overlap_seed overlap units = overlap_walk overlap (rev units) [] 0"

text \<open>The condition under which the loop closes the running fragment before a unit.\<close>

definition closes :: "int \<Rightarrow> chunker \<Rightarrow> string \<Rightarrow> bool" where
  "closes chunk_size st sentence =
     (int (current_tokens st + estimate_tokens sentence) > chunk_size \<and> current_chunk st \<noteq> [])"

text \<open>One iteration of \<open>for sentence in sentences\<close>.\<close>

definition chunk_step :: "int \<Rightarrow> int \<Rightarrow> int option \<Rightarrow> string \<Rightarrow> chunker \<Rightarrow> chunker" where
  "chunk_step chunk_size overlap doc sentence st =
     (let sentence_tokens = estimate_tokens sentence;
          st' = (if closes chunk_size st sentence
                 then (let (overlap_sentences, overlap_tokens) = overlap_seed overlap (current_chunk st)
                       in \<lparr>chunks = chunks st @ [make_chunk (next_index st) (current_chunk st) (current_tokens st) doc],
                           current_chunk = overlap_sentences,
                           current_tokens = overlap_tokens,
                           next_index = next_index st + 1\<rparr>)
                 else st)
      in st'\<lparr>current_chunk := current_chunk st' @ [sentence],
             current_tokens := current_tokens st' + sentence_tokens\<rparr>)"

definition chunker_init :: chunker where
  "chunker_init = \<lparr>chunks = [], current_chunk = [], current_tokens = 0, next_index = 0\<rparr>"

text \<open>After the loop: \<open>if current_chunk:\<close> appends the remaining fragment.\<close>

definition chunk_finish :: "int option \<Rightarrow> chunker \<Rightarrow> chunk list" where
  "chunk_finish doc st =
     (if current_chunk st \<noteq> []
      then chunks st @ [make_chunk (next_index st) (current_chunk st) (current_tokens st) doc]
      else chunks st)"

definition chunk_text_doc :: "int \<Rightarrow> int \<Rightarrow> string \<Rightarrow> int option \<Rightarrow> chunk list" where
  "chunk_text_doc chunk_size overlap txt doc =
     chunk_finish doc (fold (chunk_step chunk_size overlap doc) (split_sentences txt) chunker_init)"

text \<open>\<open>chunk_text(text)\<close> with the default \<open>document_id=None\<close>.\<close>

definition chunk_text :: "int \<Rightarrow> int \<Rightarrow> string \<Rightarrow> chunk list" where
  "chunk_text chunk_size overlap txt = chunk_text_doc chunk_size overlap txt None"

text \<open>
  \<open>chunk_with_page_info\<close>: a page dictionary is used through its keys \<open>page_number\<close>
  and \<open>text\<close> only. The outer loop carries \<open>all_chunks\<close> and the counter \<open>chunk_index\<close>.
\<close>

record page =
  page_no :: int
  page_text :: string

fun stamp_chunks :: "int \<Rightarrow> chunk list \<Rightarrow> chunk list \<times> nat \<Rightarrow> chunk list \<times> nat" where
  "stamp_chunks pn [] (all_chunks, idx) = (all_chunks, idx)"
| "stamp_chunks pn (c # cs) (all_chunks, idx) =
     stamp_chunks pn cs (all_chunks @ [c\<lparr>chunk_index := idx, page_number := Some pn\<rparr>], idx + 1)"

definition page_step :: "int \<Rightarrow> int \<Rightarrow> page \<Rightarrow> chunk list \<times> nat \<Rightarrow> chunk list \<times> nat" where
  "page_step chunk_size overlap p acc =
     stamp_chunks (page_no p) (chunk_text chunk_size overlap (page_text p)) acc"

definition chunk_with_page_info :: "int \<Rightarrow> int \<Rightarrow> page list \<Rightarrow> chunk list" where
  "chunk_with_page_info chunk_size overlap pages =
     fst (fold (page_step chunk_size overlap) pages ([], 0))"

text \<open>
  The constructor \<open>ChunkingService.__init__(chunk_size=None, overlap=None)\<close>:
  \<open>self.chunk_size = chunk_size or settings.chunk_size\<close> and
  \<open>self.overlap = overlap or settings.chunk_overlap\<close>. Python's \<open>or\<close> takes its
  second operand when the first is \<open>None\<close> and also when it is \<open>0\<close>. The settings
  are those of \<open>config.py\<close>, whose defaults are 750 and 100.
\<close>

record settings =
  settings_chunk_size :: int
  settings_chunk_overlap :: int

definition default_settings :: settings where
  "default_settings = \<lparr>settings_chunk_size = 750, settings_chunk_overlap = 100\<rparr>"

definition py_or :: "int option \<Rightarrow> int \<Rightarrow> int" where
  "py_or x d = (case x of None \<Rightarrow> d | Some v \<Rightarrow> if v = 0 then d else v)"

record chunking_service =
  self_chunk_size :: int
  self_overlap :: int

definition chunking_service_init :: "settings \<Rightarrow> int option \<Rightarrow> int option \<Rightarrow> chunking_service" where
  "chunking_service_init cfg chunk_size overlap =
     \<lparr>self_chunk_size = py_or chunk_size (settings_chunk_size cfg),
      self_overlap = py_or overlap (settings_chunk_overlap cfg)\<rparr>"

text \<open>The methods on a service object: \<open>self.chunk_text(text)\<close> and
  \<open>self.chunk_with_page_info(pages)\<close>.\<close>

definition service_chunk_text :: "chunking_service \<Rightarrow> string \<Rightarrow> chunk list" where
  "service_chunk_text self txt = chunk_text (self_chunk_size self) (self_overlap self) txt"

definition service_chunk_with_page_info :: "chunking_service \<Rightarrow> page list \<Rightarrow> chunk list" where
  "service_chunk_with_page_info self pages =
     chunk_with_page_info (self_chunk_size self) (self_overlap self) pages"

section \<open>Ranking fuser: \<open>services/hybrid_search.py\<close>\<close>

text \<open>
  Scores are Python floats; they are taken as real numbers, so rounding and the special
  float values are outside this model. A hit is a dictionary with a \<open>score\<close> and
  further keys; \<open>_normalize_scores\<close> only touches \<open>score\<close>, so it is given once for
  both hit lists, with the remaining keys in \<open>item\<close>.
\<close>

datatype pyval = PNone | PInt int | PFloat real | PStr string

type_synonym metadata = "(string \<times> pyval) list"

record 'a scored =
  score :: real
  item :: 'a

text \<open>
  The payload of a vector hit: the keys \<open>chunk_id\<close>, \<open>document_id\<close> and \<open>text\<close>,
  and every other key of the payload (which the source collects as \<open>metadata\<close>).
\<close>

record vector_payload =
  p_chunk_id :: int
  p_document_id :: int
  p_text :: string
  p_rest :: metadata

text \<open>The keys of a keyword hit that the fuser reads.\<close>

record keyword_fields =
  k_chunk_id :: int
  k_document_id :: int
  k_text :: string
  k_highlighted :: "string option"
  k_metadata :: metadata

type_synonym vector_result = "vector_payload scored"
type_synonym keyword_result = "keyword_fields scored"

text \<open>
  A value of \<open>results_map\<close>. The key \<open>highlighted\<close> is absent for an entry that only
  the vector list wrote; it is read with \<open>.get\<close>, so absent and \<open>None\<close> are one case.
\<close>

record merged =
  m_chunk_id :: int
  m_document_id :: int
  m_text :: string
  m_vector_score :: real
  m_keyword_score :: real
  m_highlighted :: "string option"
  m_metadata :: metadata

text \<open>
  An entry of the returned list. The source spreads the metadata keys into the entry
  after the fixed keys; the metadata this repository stores (\<open>page_number\<close>, \<open>company\<close>,
  \<open>document_type\<close>, \<open>document_date\<close>, \<open>chunk_index\<close>) shares no key with them, and
  the spread keys are kept together in \<open>r_extra\<close>.
\<close>

record ranked =
  r_chunk_id :: int
  r_document_id :: int
  r_text :: string
  r_score :: real
  r_vector_score :: real
  r_keyword_score :: real
  r_highlighted_text :: "string option"
  r_extra :: metadata

text \<open>\<open>min(scores)\<close> and \<open>max(scores)\<close> on a non-empty list, as the loops they are.\<close>

fun py_min :: "real list \<Rightarrow> real" where
  "py_min (x # xs) = fold (\<lambda>y m. if y < m then y else m) xs x"
| "py_min [] = 0"  \<comment> \<open>not reached: \<open>_normalize_scores\<close> returns before, on an empty list\<close>

fun py_max :: "real list \<Rightarrow> real" where
  "py_max (x # xs) = fold (\<lambda>y m. if y > m then y else m) xs x"
| "py_max [] = 0"  \<comment> \<open>not reached\<close>

definition normalize_scores :: "'a scored list \<Rightarrow> 'a scored list" where
  "normalize_scores results =
     (if results = [] then results
      else let scores = map score results;
               min_score = py_min scores;
               max_score = py_max scores
           in if max_score - min_score < 1 / 10 ^ 10
              then map (\<lambda>r. r\<lparr>score := 1\<rparr>) results
              else map (\<lambda>r. r\<lparr>score := (score r - min_score) / (max_score - min_score)\<rparr>) results)"

text \<open>
  A Python dictionary keeps its keys in insertion order, and assigning to a key that is
  present keeps the key's place: an association list with in-place update.
\<close>

fun dict_set :: "'k \<Rightarrow> 'v \<Rightarrow> ('k \<times> 'v) list \<Rightarrow> ('k \<times> 'v) list" where
  "dict_set k v [] = [(k, v)]"
| "dict_set k v ((k', v') # ps) = (if k = k' then (k, v) # ps else (k', v') # dict_set k v ps)"

definition add_vector :: "vector_result \<Rightarrow> (int \<times> merged) list \<Rightarrow> (int \<times> merged) list" where
  "add_vector result results_map =
     (let chunk_id = p_chunk_id (item result)
      in dict_set chunk_id
           \<lparr>m_chunk_id = chunk_id,
            m_document_id = p_document_id (item result),
            m_text = p_text (item result),
            m_vector_score = score result,
            m_keyword_score = 0,
            m_highlighted = None,
            m_metadata = p_rest (item result)\<rparr> results_map)"

definition add_keyword :: "keyword_result \<Rightarrow> (int \<times> merged) list \<Rightarrow> (int \<times> merged) list" where
  "add_keyword result results_map =
     (let chunk_id = k_chunk_id (item result)
      in case map_of results_map chunk_id of
           Some e \<Rightarrow>
             dict_set chunk_id
               (e\<lparr>m_keyword_score := score result, m_highlighted := k_highlighted (item result)\<rparr>)
               results_map
         | None \<Rightarrow>
             dict_set chunk_id
               \<lparr>m_chunk_id = chunk_id,
                m_document_id = k_document_id (item result),
                m_text = k_text (item result),
                m_vector_score = 0,
                m_keyword_score = score result,
                m_highlighted = k_highlighted (item result),
                m_metadata = k_metadata (item result)\<rparr> results_map)"

definition combine_entry :: "real \<Rightarrow> real \<Rightarrow> int \<times> merged \<Rightarrow> ranked" where
  "combine_entry vector_weight keyword_weight kv =
     (case kv of (chunk_id, result) \<Rightarrow>
        \<lparr>r_chunk_id = chunk_id,
         r_document_id = m_document_id result,
         r_text = m_text result,
         r_score = m_vector_score result * vector_weight + m_keyword_score result * keyword_weight,
         r_vector_score = m_vector_score result,
         r_keyword_score = m_keyword_score result,
         r_highlighted_text = m_highlighted result,
         r_extra = m_metadata result\<rparr>)"

definition results_map_of :: "vector_result list \<Rightarrow> keyword_result list \<Rightarrow> (int \<times> merged) list" where
  "results_map_of vector_results keyword_results =
     fold add_keyword keyword_results (fold add_vector vector_results [])"

definition combine_results :: "vector_result list \<Rightarrow> keyword_result list \<Rightarrow> real \<Rightarrow> ranked list" where
  "combine_results vector_results keyword_results vector_weight =
     (let keyword_weight = 1 - vector_weight;
          vector_results = normalize_scores vector_results;
          keyword_results = normalize_scores keyword_results
      in map (combine_entry vector_weight keyword_weight)
           (results_map_of vector_results keyword_results))"



text \<open>
  Two notions for stating the properties of the merge: the last hit of a list with a
  given fragment identity, and a list of identities cut down to first occurrences.
\<close>

definition last_hit :: "('a \<Rightarrow> int) \<Rightarrow> 'a list \<Rightarrow> int \<Rightarrow> 'a option" where
  "last_hit key hits c = List.find (\<lambda>h. key h = c) (rev hits)"

fun first_occurrences :: "int list \<Rightarrow> int list" where
  "first_occurrences [] = []"
| "first_occurrences (c # cs) = c # first_occurrences (filter (\<lambda>d. d \<noteq> c) cs)"

definition vector_hit_ids :: "vector_result list \<Rightarrow> int list" where
  "vector_hit_ids vs = map (\<lambda>h. p_chunk_id (item h)) vs"

definition keyword_hit_ids :: "keyword_result list \<Rightarrow> int list" where
  "keyword_hit_ids ks = map (\<lambda>h. k_chunk_id (item h)) ks"

text \<open>The entry that \<open>_combine_results\<close> writes into \<open>results_map\<close> for a vector hit.\<close>

definition vector_entry :: "vector_result \<Rightarrow> merged" where
  "vector_entry h =
     \<lparr>m_chunk_id = p_chunk_id (item h), m_document_id = p_document_id (item h),
      m_text = p_text (item h), m_vector_score = score h, m_keyword_score = 0,
      m_highlighted = None, m_metadata = p_rest (item h)\<rparr>"

text \<open>
  For stating what \<open>chunk_with_page_info\<close> does to the chunks of one page: number them
  from \<open>idx\<close> and stamp the page number.
\<close>

definition restamp :: "int \<Rightarrow> nat \<Rightarrow> chunk list \<Rightarrow> chunk list" where
  "restamp pn idx cs =
     map (\<lambda>(i, c). c\<lparr>chunk_index := i, page_number := Some pn\<rparr>) (enumerate idx cs)"

section \<open>Embedding service: \<open>EmbeddingService.similarity\<close>\<close>

text \<open>
  The result of a float division in numpy: dividing by zero does not raise, it gives
  \<open>nan\<close> for \<open>0/0\<close> and an infinity otherwise (with a warning). Finite values are
  taken as reals. \<open>np.dot\<close> of two one-dimensional arrays of different lengths raises
  \<open>ValueError\<close>.
\<close>

datatype np_float = Finite real | PosInf | NegInf | NaN

datatype np_error = ValueError

definition np_true_divide :: "real \<Rightarrow> real \<Rightarrow> np_float" where
  "np_true_divide x y =
     (if y \<noteq> 0 then Finite (x / y)
      else if x = 0 then NaN else if x > 0 then PosInf else NegInf)"

definition np_dot :: "real list \<Rightarrow> real list \<Rightarrow> real" where
  "np_dot a b = sum_list (map2 (*) a b)"

definition linalg_norm :: "real list \<Rightarrow> real" where
  "linalg_norm a = sqrt (sum_list (map (\<lambda>x. x * x) a))"

definition similarity :: "real list \<Rightarrow> real list \<Rightarrow> np_error + np_float" where
  "similarity embedding1 embedding2 =
     (if length embedding1 \<noteq> length embedding2 then Inl ValueError
      else Inr (np_true_divide (np_dot embedding1 embedding2)
                  (linalg_norm embedding1 * linalg_norm embedding2)))"

section \<open>Ingestion orchestrator: \<open>tasks/process_document.py\<close>\<close>

text \<open>
  The collaborators (blob store, PDF parser, embedding model, vector index, keyword
  index) are parameters; each either returns its value or raises, and a raised exception
  is \<open>Inl\<close> of its message \<open>str(e)\<close>. What the two indexes store is outside the model;
  the relational store is modelled, with the session's uncommitted view (\<open>working\<close>)
  beside the committed tables. The service objects are taken as constructed. The wall-clock fields \<open>processed_at\<close> and
  \<open>processing_time\<close> are left out.
\<close>

datatype processing_status = PENDING | PROCESSING | COMPLETED | FAILED

record document =
  storage_path :: string
  title :: "string option"
  company :: "string option"
  document_type :: "string option"
  document_date :: "string option"
  page_count :: "int option"
  status :: processing_status
  error_message :: "string option"
  chunk_count :: nat

record chunk_row =
  row_id :: int
  row_document_id :: int
  row_chunk_index :: nat
  row_text :: string
  row_token_count :: nat
  row_page_number :: "int option"
  vector_id :: "string option"
  search_id :: "string option"

record tables =
  documents :: "int \<rightharpoonup> document"
  chunk_rows :: "chunk_row list"
  next_chunk_id :: int

record session =
  committed :: tables
  working :: tables

record pdf_metadata =
  md_page_count :: "int option"
  md_title :: "string option"

record services =
  download_file :: "string \<Rightarrow> string + string"
  extract_text :: "string \<Rightarrow> string + (string \<times> pdf_metadata)"
  extract_text_by_page :: "string \<Rightarrow> string + page list"
  encode_batch :: "string list \<Rightarrow> string + real list list"
  add_vectors :: "real list list \<Rightarrow> vector_payload list \<Rightarrow> string + string list"
  index_chunk :: "int \<Rightarrow> int \<Rightarrow> string \<Rightarrow> metadata \<Rightarrow> string + string"
  service_chunk_size :: int
  service_overlap :: int

datatype task_result = Success int nat | Error string

definition commit :: "session \<Rightarrow> session" where
  "commit db = db\<lparr>committed := working db\<rparr>"

definition put_document :: "int \<Rightarrow> document \<Rightarrow> session \<Rightarrow> session" where
  "put_document i d db = db\<lparr>working := (working db)\<lparr>documents := (documents (working db))(i \<mapsto> d)\<rparr>\<rparr>"

definition put_rows :: "chunk_row list \<Rightarrow> session \<Rightarrow> session" where
  "put_rows rows db = db\<lparr>working := (working db)\<lparr>chunk_rows := rows\<rparr>\<rparr>"

text \<open>\<open>document.storage_path.split('/', 1)[1]\<close>: an \<open>IndexError\<close> without a slash.\<close>

definition split_object_name :: "string \<Rightarrow> string + string" where
  "split_object_name path =
     (if CHR ''/'' \<in> set path then Inr (tl (dropWhile (\<lambda>c. c \<noteq> CHR ''/'') path))
      else Inl ''list index out of range'')"

text \<open>Download and parse: the steps before anything is written.\<close>

definition fetch_and_parse :: "services \<Rightarrow> document \<Rightarrow> string + (pdf_metadata \<times> page list)" where
  "fetch_and_parse svc document =
     (case split_object_name (storage_path document) of
        Inl e \<Rightarrow> Inl e
      | Inr object_name \<Rightarrow>
          (case download_file svc object_name of
             Inl e \<Rightarrow> Inl e
           | Inr file_bytes \<Rightarrow>
               (case extract_text svc file_bytes of
                  Inl e \<Rightarrow> Inl e
                | Inr (full_text, metadata) \<Rightarrow>
                    (case extract_text_by_page svc file_bytes of
                       Inl e \<Rightarrow> Inl e
                     | Inr pages \<Rightarrow> Inr (metadata, pages)))))"

definition opt_int :: "int option \<Rightarrow> pyval" where
  "opt_int v = (case v of None \<Rightarrow> PNone | Some i \<Rightarrow> PInt i)"

definition opt_str :: "string option \<Rightarrow> pyval" where
  "opt_str v = (case v of None \<Rightarrow> PNone | Some s \<Rightarrow> PStr s)"

definition update_metadata :: "pdf_metadata \<Rightarrow> page list \<Rightarrow> document \<Rightarrow> document" where
  "update_metadata metadata pages document =
     (let d = document\<lparr>page_count := Some (case md_page_count metadata of
                                               Some n \<Rightarrow> n | None \<Rightarrow> int (length pages))\<rparr>
      in if (title d = None \<or> title d = Some []) \<and> md_title metadata \<noteq> None \<and> md_title metadata \<noteq> Some []
         then d\<lparr>title := md_title metadata\<rparr> else d)"

definition new_row :: "int \<Rightarrow> int \<Rightarrow> chunk \<Rightarrow> chunk_row" where
  "new_row doc_id i chunk_data =
     \<lparr>row_id = i, row_document_id = doc_id, row_chunk_index = chunk_index chunk_data,
      row_text = content chunk_data, row_token_count = token_count chunk_data,
      row_page_number = page_number chunk_data, vector_id = None, search_id = None\<rparr>"

definition vector_payload_of :: "document \<Rightarrow> chunk_row \<Rightarrow> vector_payload" where
  "vector_payload_of document row =
     \<lparr>p_chunk_id = row_id row, p_document_id = row_document_id row, p_text = row_text row,
      p_rest = [(''page_number'', opt_int (row_page_number row)),
                (''company'', opt_str (company document)),
                (''document_type'', opt_str (document_type document))]\<rparr>"

definition search_metadata_of :: "document \<Rightarrow> chunk_row \<Rightarrow> metadata" where
  "search_metadata_of document row =
     [(''page_number'', opt_int (row_page_number row)),
      (''company'', opt_str (company document)),
      (''document_type'', opt_str (document_type document)),
      (''document_date'', opt_str (document_date document)),
      (''chunk_index'', PInt (int (row_chunk_index row)))]"

text \<open>\<open>for chunk_record, vector_id in zip(chunk_records, vector_ids)\<close>\<close>

fun set_vector_ids :: "chunk_row list \<Rightarrow> string list \<Rightarrow> chunk_row list" where
  "set_vector_ids (row # rows) (v # vs) = row\<lparr>vector_id := Some v\<rparr> # set_vector_ids rows vs"
| "set_vector_ids rows _ = rows"

text \<open>
  The indexing loop: the rows indexed so far keep their \<open>search_id\<close> when a later call
  raises.
\<close>

fun index_rows :: "services \<Rightarrow> document \<Rightarrow> chunk_row list \<Rightarrow> chunk_row list \<times> string option" where
  "index_rows svc document [] = ([], None)"
| "index_rows svc document (row # rows) =
     (case index_chunk svc (row_id row) (row_document_id row) (row_text row)
             (search_metadata_of document row) of
        Inl e \<Rightarrow> (row # rows, Some e)
      | Inr sid \<Rightarrow>
          (case index_rows svc document rows of
             (rows', err) \<Rightarrow> (row\<lparr>search_id := Some sid\<rparr> # rows', err)))"

text \<open>
  The body of the \<open>try\<close> block after the status was set to \<open>processing\<close>: the session
  as the block leaves it, with the exception message or the returned value.
\<close>

definition run_pipeline :: "services \<Rightarrow> int \<Rightarrow> document \<Rightarrow> session \<Rightarrow> session \<times> (string + task_result)" where
  "run_pipeline svc doc_id document db =
     (case fetch_and_parse svc document of
        Inl e \<Rightarrow> (db, Inl e)
      | Inr (metadata, pages) \<Rightarrow>
          (let document = update_metadata metadata pages document;
               db = put_document doc_id document db;
               chunks_data = chunk_with_page_info (service_chunk_size svc) (service_overlap svc) pages
           in case encode_batch svc (map content chunks_data) of
                Inl e \<Rightarrow> (db, Inl e)
              | Inr embeddings_list \<Rightarrow>
                  (let n = min (length chunks_data) (length embeddings_list);
                       first_id = next_chunk_id (working db);
                       chunk_records = map (\<lambda>(i, c). new_row doc_id (first_id + int i) c)
                                         (enumerate 0 (take n chunks_data));
                       old_rows = chunk_rows (working db);
                       db = db\<lparr>working := (working db)\<lparr>chunk_rows := old_rows @ chunk_records,
                                                      next_chunk_id := first_id + int n\<rparr>\<rparr>
                   in case add_vectors svc embeddings_list (map (vector_payload_of document) chunk_records) of
                        Inl e \<Rightarrow> (db, Inl e)
                      | Inr vector_ids \<Rightarrow>
                          (let chunk_records = set_vector_ids chunk_records vector_ids;
                               db = put_rows (old_rows @ chunk_records) db
                           in case index_rows svc document chunk_records of
                                (chunk_records, Some e) \<Rightarrow> (put_rows (old_rows @ chunk_records) db, Inl e)
                              | (chunk_records, None) \<Rightarrow>
                                  (let db = put_rows (old_rows @ chunk_records) db;
                                       document = document\<lparr>status := COMPLETED,
                                                           chunk_count := length chunk_records\<rparr>;
                                       db = commit (put_document doc_id document db)
                                   in (db, Inr (Success doc_id (length chunk_records))))))))"

text \<open>
  The task, from the committed tables to the committed tables after \<open>db.close()\<close>.
  The handler reads the document again, marks it failed with \<open>str(e)\<close> and commits
  whatever the session holds.
\<close>

definition process_document_task :: "services \<Rightarrow> int \<Rightarrow> tables \<Rightarrow> tables \<times> task_result" where
  "process_document_task svc doc_id t =
     (let db = \<lparr>committed = t, working = t\<rparr>
      in case documents (working db) doc_id of
           None \<Rightarrow> (committed db, Error ''Document not found'')
         | Some document \<Rightarrow>
             (let document = document\<lparr>status := PROCESSING\<rparr>;
                  db = commit (put_document doc_id document db)
              in case run_pipeline svc doc_id document db of
                   (db, Inr res) \<Rightarrow> (committed db, res)
                 | (db, Inl e) \<Rightarrow>
                     (case documents (working db) doc_id of
                        Some d \<Rightarrow>
                          (committed (commit (put_document doc_id
                               (d\<lparr>status := FAILED, error_message := Some e\<rparr>) db)), Error e)
                      | None \<Rightarrow> (committed db, Error e))))"

section \<open>Properties of the fragmenter\<close>

subsection \<open>Token estimates and sentence units\<close>

lemma split_sentences_from_nonempty: "split_sentences_from acc cs \<noteq> []"
  by (induction acc cs rule: split_sentences_from.induct) auto

lemma is_terminal_not_word: "is_terminal c \<Longrightarrow> \<not> is_word c"
  by (auto simp: is_terminal_def is_word_def)

lemma is_space_not_word: "is_space c \<Longrightarrow> \<not> is_word c"
  by (auto simp: is_space_def is_word_def Let_def)

text \<open>A character that is no word character separates the words on its two sides.\<close>

lemma findall_words_append_sep:
  "\<not> is_word c \<Longrightarrow> findall_words (xs @ c # ys) = findall_words xs @ findall_words ys"
proof (induction xs rule: findall_words.induct)
  case 1
  then show ?case by simp
next
  case (2 d ds)
  show ?case
  proof (cases "is_word d")
    case True
    have tw: "takeWhile is_word (ds @ c # ys) = takeWhile is_word ds"
      using 2(3) by (induction ds) auto
    have dw: "dropWhile is_word (ds @ c # ys) = dropWhile is_word ds @ c # ys"
      using 2(3) by (induction ds) auto
    show ?thesis using True 2(1)[OF True 2(3)] by (simp add: tw dw)
  next
    case False
    then show ?thesis using 2(2)[OF False 2(3)] by simp
  qed
qed

lemma findall_words_snoc_sep: "\<not> is_word c \<Longrightarrow> findall_words (xs @ [c]) = findall_words xs"
  using findall_words_append_sep [of c xs "[]"] by simp

lemma findall_words_dropWhile_space: "findall_words (dropWhile is_space cs) = findall_words cs"
  by (induction cs) (auto simp: is_space_not_word)

text \<open>Splitting into sentence units neither loses nor creates a word.\<close>

lemma estimate_tokens_split_from:
  "sum_list (map estimate_tokens (split_sentences_from acc cs)) = estimate_tokens (acc @ cs)"
proof (induction acc cs rule: split_sentences_from.induct)
  case (1 acc)
  then show ?case by simp
next
  case (2 acc c cs)
  show ?case
  proof (cases "is_terminal c \<and> cs \<noteq> [] \<and> is_space (hd cs)")
    case True
    then have nw: "\<not> is_word c" by (simp add: is_terminal_not_word)
    have "sum_list (map estimate_tokens (split_sentences_from acc (c # cs)))
        = estimate_tokens (acc @ [c]) + estimate_tokens (dropWhile is_space cs)"
      using True 2(1) by simp
    also have "\<dots> = length (findall_words acc) + length (findall_words cs)"
      by (simp add: estimate_tokens_def findall_words_snoc_sep [OF nw] findall_words_dropWhile_space)
    also have "\<dots> = estimate_tokens (acc @ c # cs)"
      by (simp add: estimate_tokens_def findall_words_append_sep [OF nw])
    finally show ?thesis .
  next
    case False
    then show ?thesis using 2(2) by auto
  qed
qed

lemma estimate_tokens_split:
  "sum_list (map estimate_tokens (split_sentences t)) = estimate_tokens t"
  by (simp add: split_sentences_def estimate_tokens_split_from)

subsection \<open>The loop while nothing is closed\<close>

lemma fold_chunk_step_no_close:
  "int (current_tokens st + sum_list (map estimate_tokens ss)) \<le> chunk_size \<Longrightarrow>
   fold (chunk_step chunk_size overlap doc) ss st =
     st\<lparr>current_chunk := current_chunk st @ ss,
        current_tokens := current_tokens st + sum_list (map estimate_tokens ss)\<rparr>"
proof (induction ss arbitrary: st)
  case Nil
  then show ?case by simp
next
  case (Cons s ss)
  have nc: "\<not> closes chunk_size st s"
    using Cons.prems by (simp add: closes_def)
  have step: "chunk_step chunk_size overlap doc s st =
      st\<lparr>current_chunk := current_chunk st @ [s],
         current_tokens := current_tokens st + estimate_tokens s\<rparr>"
    using nc by (simp add: chunk_step_def)
  show ?case
    using Cons.prems by (simp add: step Cons.IH add.assoc)
qed

text \<open>
  C8. A non-empty text whose estimated token count is at most the chunk size gives
  exactly one fragment: index 0, all sentence units joined in their order, and the
  token count of the whole text.
\<close>

theorem chunk_text_single_fragment:
  assumes "t \<noteq> []" and "int (estimate_tokens t) \<le> chunk_size"
  shows "chunk_text chunk_size overlap t =
     [\<lparr>chunk_index = 0, content = join_space (split_sentences t),
       token_count = estimate_tokens t, document_id = None, page_number = None\<rparr>]"
proof -
  have ne: "split_sentences t \<noteq> []"
    by (simp add: split_sentences_def split_sentences_from_nonempty)
  have "int (current_tokens chunker_init + sum_list (map estimate_tokens (split_sentences t)))
          \<le> chunk_size"
    using assms(2) by (simp add: chunker_init_def estimate_tokens_split)
  from fold_chunk_step_no_close [OF this]
  show ?thesis
    using ne by (simp add: chunk_text_def chunk_text_doc_def chunk_finish_def make_chunk_def
        chunker_init_def estimate_tokens_split)
qed

theorem chunk_text_single_fragment_witness:
  "''Hello world. How are you?'' \<noteq> []
   \<and> int (estimate_tokens ''Hello world. How are you?'') \<le> 10
   \<and> chunk_text 10 3 ''Hello world. How are you?'' =
       [\<lparr>chunk_index = 0, content = ''Hello world. How are you?'', token_count = 5,
         document_id = None, page_number = None\<rparr>]"
  using chunk_text_single_fragment [of "''Hello world. How are you?''" 10 3]
  by (simp add: estimate_tokens_def split_sentences_def is_word_def is_terminal_def is_space_def)

text \<open>
  C6. The claim is that the empty string gives no fragment. The source splits the empty
  string into the single empty unit, appends it to the running fragment, and the final
  test \<open>if current_chunk:\<close> sees a non-empty list: one fragment with empty text and
  zero tokens is returned, for every size and overlap.
\<close>

theorem chunk_text_empty_string:
  "chunk_text chunk_size overlap [] =
     [\<lparr>chunk_index = 0, content = [], token_count = 0, document_id = None, page_number = None\<rparr>]"
  by (simp add: chunk_text_def chunk_text_doc_def split_sentences_def chunk_step_def closes_def
      chunker_init_def chunk_finish_def make_chunk_def estimate_tokens_def)

subsection \<open>The overlap walk\<close>

lemma overlap_walk_shape:
  "overlap_walk overlap rs acc tok = (acc', tok') \<Longrightarrow>
     \<exists>k \<le> length rs. acc' = rev (take k rs) @ acc \<and>
        tok' = tok + sum_list (map estimate_tokens (take k rs)) \<and>
        (k < length rs \<longrightarrow> overlap < int (tok' + estimate_tokens (rs ! k)))"
proof (induction rs arbitrary: acc tok)
  case Nil
  then show ?case by simp
next
  case (Cons s rs)
  show ?case
  proof (cases "int (tok + estimate_tokens s) \<le> overlap")
    case True
    with Cons.prems
    have "overlap_walk overlap rs (s # acc) (tok + estimate_tokens s) = (acc', tok')"
      by simp
    from Cons.IH [OF this] obtain k where k: "k \<le> length rs" "acc' = rev (take k rs) @ s # acc"
      "tok' = tok + estimate_tokens s + sum_list (map estimate_tokens (take k rs))"
      "k < length rs \<longrightarrow> overlap < int (tok' + estimate_tokens (rs ! k))"
      by auto
    show ?thesis
      by (rule exI [of _ "Suc k"]) (use k in simp)
  next
    case False
    with Cons.prems have "acc' = acc" "tok' = tok" by simp_all
    then show ?thesis
      using False by (intro exI [of _ 0]) simp
  qed
qed

lemma overlap_walk_budget:
  "overlap_walk overlap rs acc tok = (acc', tok') \<Longrightarrow> int tok \<le> overlap \<Longrightarrow> int tok' \<le> overlap"
  by (induction rs arbitrary: acc tok) (auto simp: Let_def split: if_splits)

lemma overlap_walk_negative:
  "overlap < 0 \<Longrightarrow> overlap_walk overlap rs acc tok = (acc, tok)"
  by (cases rs) (auto simp: Let_def)

lemma overlap_seed_props:
  assumes "overlap_seed overlap units = (seed, tok)"
  shows "suffix seed units" and "tok = sum_list (map estimate_tokens seed)"
    and "0 \<le> overlap \<Longrightarrow> int tok \<le> overlap" and "overlap < 0 \<Longrightarrow> seed = []"
proof -
  from assms have w: "overlap_walk overlap (rev units) [] 0 = (seed, tok)"
    by (simp add: overlap_seed_def)
  from overlap_walk_shape [OF w] obtain k where k: "k \<le> length units"
    "seed = rev (take k (rev units))" "tok = sum_list (map estimate_tokens (take k (rev units)))"
    by auto
  have "seed = drop (length units - k) units"
    using k(1,2) by (simp add: take_rev)
  then show "suffix seed units" by (simp add: suffix_drop)
  have "sum_list (map estimate_tokens seed) = sum_list (rev (map estimate_tokens (take k (rev units))))"
    by (simp add: k(2) rev_map)
  then show "tok = sum_list (map estimate_tokens seed)"
    by (simp add: k(3) sum_list_rev del: rev_map)
  show "0 \<le> overlap \<Longrightarrow> int tok \<le> overlap"
    using overlap_walk_budget [OF w] by simp
  show "overlap < 0 \<Longrightarrow> seed = []"
    using w overlap_walk_negative [of overlap "rev units" "[]" 0] by simp
qed

text \<open>The walk stops only at a unit that would take the seed over the overlap.\<close>

lemma overlap_seed_maximal:
  assumes "overlap_seed overlap units = (seed, tok)" and "seed \<noteq> units"
  shows "overlap < int (tok + estimate_tokens (units ! (length units - Suc (length seed))))"
proof -
  from assms have w: "overlap_walk overlap (rev units) [] 0 = (seed, tok)"
    by (simp add: overlap_seed_def)
  from overlap_walk_shape [OF w] obtain k where k: "k \<le> length units"
    "seed = rev (take k (rev units))"
    "k < length (rev units) \<longrightarrow> overlap < int (tok + estimate_tokens (rev units ! k))"
    by auto
  have len: "length seed = k" using k(1,2) by simp
  have "k \<noteq> length units"
  proof
    assume "k = length units"
    then have "seed = units" using k(2) by simp
    with assms(2) show False by simp
  qed
  with k(1) have lt: "k < length units" by simp
  then have "rev units ! k = units ! (length units - Suc k)" by (rule rev_nth)
  with k(3) lt show ?thesis by (simp add: len)
qed

text \<open>
  The loop and the overlap field. Whenever an iteration closes the running fragment, the
  closed fragment is emitted with all its units, and the next fragment starts as
  \<open>seed @ [sentence]\<close> where \<open>seed\<close> is a suffix of the closed fragment's units. For
  a field \<open>self.overlap\<close> of at least zero the token estimates of the seed sum to at
  most the field, and the seed is the longest such suffix. (A negative field seeds
  nothing.)
\<close>

lemma chunk_step_seed_bounded_by_field:
  assumes "closes chunk_size st sentence"
  shows "\<exists>seed. current_chunk (chunk_step chunk_size overlap doc sentence st) = seed @ [sentence]
     \<and> suffix seed (current_chunk st)
     \<and> current_tokens (chunk_step chunk_size overlap doc sentence st)
         = sum_list (map estimate_tokens seed) + estimate_tokens sentence
     \<and> (0 \<le> overlap \<longrightarrow> int (sum_list (map estimate_tokens seed)) \<le> overlap)
     \<and> (overlap < 0 \<longrightarrow> seed = [])
     \<and> (seed \<noteq> current_chunk st \<longrightarrow>
          overlap < int (sum_list (map estimate_tokens seed)
             + estimate_tokens (current_chunk st ! (length (current_chunk st) - Suc (length seed)))))
     \<and> chunks (chunk_step chunk_size overlap doc sentence st)
         = chunks st @ [make_chunk (next_index st) (current_chunk st) (current_tokens st) doc]"
proof -
  obtain seed tok where s: "overlap_seed overlap (current_chunk st) = (seed, tok)"
    by (cases "overlap_seed overlap (current_chunk st)")
  note p = overlap_seed_props [OF s]
  have m: "seed \<noteq> current_chunk st \<longrightarrow>
          overlap < int (sum_list (map estimate_tokens seed)
             + estimate_tokens (current_chunk st ! (length (current_chunk st) - Suc (length seed))))"
    using overlap_seed_maximal [OF s] p(2) by simp
  show ?thesis
    using assms p m by (intro exI [of _ seed]) (simp add: chunk_step_def s)
qed

text \<open>
  C3. The claim bounds the seeded units by the overlap that is asked for. The loop bounds
  them by the field \<open>self.overlap\<close>, and the constructor fills the field with
  \<open>overlap or settings.chunk_overlap\<close>: an overlap of 0 is replaced by the configured
  default. With the settings of \<open>config.py\<close>, \<open>ChunkingService(chunk_size=6, overlap=0)\<close>
  holds the overlap 100; on the text \<open>A b c. D e. F. G h.\<close> the first fragment is closed
  with 6 tokens, all three of its units are seeded into the second fragment, and the
  second fragment repeats the whole first one, where an overlap of 0 allows no unit.
\<close>

theorem chunking_service_zero_overlap_seeds_units:
  "self_chunk_size (chunking_service_init default_settings (Some 6) (Some 0)) = 6
   \<and> self_overlap (chunking_service_init default_settings (Some 6) (Some 0)) = 100
   \<and> split_sentences ''A b c. D e. F. G h.'' = [''A b c.'', ''D e.'', ''F.'', ''G h.'']
   \<and> overlap_seed (self_overlap (chunking_service_init default_settings (Some 6) (Some 0)))
         [''A b c.'', ''D e.'', ''F.''] = ([''A b c.'', ''D e.'', ''F.''], 6)
   \<and> service_chunk_text (chunking_service_init default_settings (Some 6) (Some 0))
         ''A b c. D e. F. G h.'' =
       [\<lparr>chunk_index = 0, content = ''A b c. D e. F.'', token_count = 6,
         document_id = None, page_number = None\<rparr>,
        \<lparr>chunk_index = 1, content = ''A b c. D e. F. G h.'', token_count = 8,
         document_id = None, page_number = None\<rparr>]"
  by (simp add: chunking_service_init_def default_settings_def py_or_def service_chunk_text_def
      chunk_text_def chunk_text_doc_def split_sentences_def chunk_step_def closes_def
      chunker_init_def chunk_finish_def make_chunk_def estimate_tokens_def overlap_seed_def
      is_word_def is_terminal_def is_space_def)

subsection \<open>Page-aware fragmenting\<close>

lemma stamp_chunks_eq:
  "stamp_chunks pn cs (acc, idx) = (acc @ restamp pn idx cs, idx + length cs)"
  by (induction cs arbitrary: acc idx) (simp_all add: restamp_def)

lemma restamp_index: "map chunk_index (restamp pn idx cs) = [idx ..< idx + length cs]"
  by (induction cs arbitrary: idx) (simp_all add: restamp_def upt_rec)

lemma restamp_page: "map page_number (restamp pn idx cs) = replicate (length cs) (Some pn)"
  by (induction cs arbitrary: idx) (simp_all add: restamp_def)

lemma restamp_body:
  "map (\<lambda>c. (content c, token_count c, document_id c)) (restamp pn idx cs)
     = map (\<lambda>c. (content c, token_count c, document_id c)) cs"
  by (induction cs arbitrary: idx) (simp_all add: restamp_def)

lemma page_step_eq:
  "page_step chunk_size overlap p (acc, idx) =
     (acc @ restamp (page_no p) idx (chunk_text chunk_size overlap (page_text p)),
      idx + length (chunk_text chunk_size overlap (page_text p)))"
  by (simp add: page_step_def stamp_chunks_eq)

lemma fold_page_step:
  "fold (page_step chunk_size overlap) pages (acc, idx) = (res, idx') \<Longrightarrow>
     idx' = idx + length (concat (map (\<lambda>p. chunk_text chunk_size overlap (page_text p)) pages))
   \<and> (\<exists>new. res = acc @ new
       \<and> map chunk_index new = [idx ..< idx']
       \<and> map page_number new
           = concat (map (\<lambda>p. replicate (length (chunk_text chunk_size overlap (page_text p)))
                                (Some (page_no p))) pages)
       \<and> map (\<lambda>c. (content c, token_count c, document_id c)) new
           = concat (map (\<lambda>p. map (\<lambda>c. (content c, token_count c, document_id c))
                                (chunk_text chunk_size overlap (page_text p))) pages))"
proof (induction pages arbitrary: acc idx)
  case Nil
  then show ?case by simp
next
  case (Cons p pages)
  let ?cs = "chunk_text chunk_size overlap (page_text p)"
  from Cons.prems
  have f: "fold (page_step chunk_size overlap) pages
             (acc @ restamp (page_no p) idx ?cs, idx + length ?cs) = (res, idx')"
    by (simp add: page_step_eq)
  from Cons.IH [OF f] obtain new where n:
    "idx' = idx + length ?cs
        + length (concat (map (\<lambda>p. chunk_text chunk_size overlap (page_text p)) pages))"
    "res = (acc @ restamp (page_no p) idx ?cs) @ new"
    "map chunk_index new = [idx + length ?cs ..< idx']"
    "map page_number new
       = concat (map (\<lambda>p. replicate (length (chunk_text chunk_size overlap (page_text p)))
                            (Some (page_no p))) pages)"
    "map (\<lambda>c. (content c, token_count c, document_id c)) new
       = concat (map (\<lambda>p. map (\<lambda>c. (content c, token_count c, document_id c))
                            (chunk_text chunk_size overlap (page_text p))) pages)"
    by auto
  have le: "idx + length ?cs \<le> idx'" using n(1) by simp
  have up: "[idx ..< idx + length ?cs] @ [idx + length ?cs ..< idx'] = [idx ..< idx']"
  proof -
    obtain k where k: "idx' = idx + length ?cs + k" using le by (metis le_Suc_ex)
    show ?thesis unfolding k by (rule upt_add_eq_append [symmetric]) simp
  qed
  show ?case
  proof (intro conjI exI [of _ "restamp (page_no p) idx ?cs @ new"])
    show "idx' = idx + length (concat (map (\<lambda>p. chunk_text chunk_size overlap (page_text p)) (p # pages)))"
      using n(1) by simp
    show "res = acc @ restamp (page_no p) idx ?cs @ new" using n(2) by simp
    show "map chunk_index (restamp (page_no p) idx ?cs @ new) = [idx ..< idx']"
      by (simp add: restamp_index n(3) up)
    show "map page_number (restamp (page_no p) idx ?cs @ new) =
      concat (map (\<lambda>p. replicate (length (chunk_text chunk_size overlap (page_text p)))
                          (Some (page_no p))) (p # pages))"
      by (simp add: restamp_page n(4))
    show "map (\<lambda>c. (content c, token_count c, document_id c)) (restamp (page_no p) idx ?cs @ new) =
      concat (map (\<lambda>p. map (\<lambda>c. (content c, token_count c, document_id c))
                          (chunk_text chunk_size overlap (page_text p))) (p # pages))"
      by (simp add: restamp_body n(5))
  qed
qed

text \<open>
  C9. Page-aware fragmenting is fragmenting each page on its own and concatenating:
  the number of fragments is the sum over the pages, the indices are \<open>0, 1, ..., k-1\<close>,
  every fragment carries the number of the page it came from, and text, token count and
  document id of the fragments are exactly those that \<open>chunk_text\<close> gives for the page
  alone, so no unit is carried over a page boundary.
\<close>

theorem chunk_with_page_info_concat:
  "length (chunk_with_page_info chunk_size overlap pages)
       = sum_list (map (\<lambda>p. length (chunk_text chunk_size overlap (page_text p))) pages)
   \<and> map chunk_index (chunk_with_page_info chunk_size overlap pages)
       = [0 ..< length (chunk_with_page_info chunk_size overlap pages)]
   \<and> map page_number (chunk_with_page_info chunk_size overlap pages)
       = concat (map (\<lambda>p. replicate (length (chunk_text chunk_size overlap (page_text p)))
                            (Some (page_no p))) pages)
   \<and> map (\<lambda>c. (content c, token_count c, document_id c))
         (chunk_with_page_info chunk_size overlap pages)
       = concat (map (\<lambda>p. map (\<lambda>c. (content c, token_count c, document_id c))
                               (chunk_text chunk_size overlap (page_text p))) pages)"
proof -
  obtain res idx' where f: "fold (page_step chunk_size overlap) pages ([], 0) = (res, idx')"
    by (cases "fold (page_step chunk_size overlap) pages ([], 0)")
  from fold_page_step [OF f] have
    i: "idx' = length (concat (map (\<lambda>p. chunk_text chunk_size overlap (page_text p)) pages))"
    and x: "map chunk_index res = [0 ..< idx']"
    and pg: "map page_number res
       = concat (map (\<lambda>p. replicate (length (chunk_text chunk_size overlap (page_text p)))
                            (Some (page_no p))) pages)"
    and b: "map (\<lambda>c. (content c, token_count c, document_id c)) res
       = concat (map (\<lambda>p. map (\<lambda>c. (content c, token_count c, document_id c))
                            (chunk_text chunk_size overlap (page_text p))) pages)"
    by auto
  have r: "chunk_with_page_info chunk_size overlap pages = res"
    by (simp add: chunk_with_page_info_def f)
  have len: "length res = idx'"
    using x by (metis length_map length_upt minus_nat.diff_0)
  show ?thesis
    unfolding r using x pg b len i by (simp add: length_concat comp_def)
qed

theorem chunk_with_page_info_concat_witness:
  "(let pages = [\<lparr>page_no = 1, page_text = ''Ab cd. Ef gh. Ij.''\<rparr>,
                 \<lparr>page_no = 2, page_text = ''Kl mn.''\<rparr>]
    in map (\<lambda>c. content c) (chunk_text 3 2 ''Ab cd. Ef gh. Ij.'') = [''Ab cd.'', ''Ab cd. Ef gh.'', ''Ef gh. Ij.'']
       \<and> map (\<lambda>c. content c) (chunk_text 3 2 ''Kl mn.'') = [''Kl mn.'']
       \<and> map (\<lambda>c. (chunk_index c, page_number c, content c)) (chunk_with_page_info 3 2 pages)
           = [(0, Some 1, ''Ab cd.''), (1, Some 1, ''Ab cd. Ef gh.''), (2, Some 1, ''Ef gh. Ij.''),
              (3, Some 2, ''Kl mn.'')])"
proof -
  have a: "chunk_text 3 2 ''Ab cd. Ef gh. Ij.'' =
      [\<lparr>chunk_index = 0, content = ''Ab cd.'', token_count = 2, document_id = None, page_number = None\<rparr>,
       \<lparr>chunk_index = 1, content = ''Ab cd. Ef gh.'', token_count = 4, document_id = None, page_number = None\<rparr>,
       \<lparr>chunk_index = 2, content = ''Ef gh. Ij.'', token_count = 3, document_id = None, page_number = None\<rparr>]"
    by (simp add: chunk_text_def chunk_text_doc_def split_sentences_def chunk_step_def closes_def
        chunker_init_def chunk_finish_def make_chunk_def estimate_tokens_def overlap_seed_def
        is_word_def is_terminal_def is_space_def)
  have b: "chunk_text 3 2 ''Kl mn.'' =
      [\<lparr>chunk_index = 0, content = ''Kl mn.'', token_count = 2, document_id = None, page_number = None\<rparr>]"
    by (simp add: chunk_text_def chunk_text_doc_def split_sentences_def chunk_step_def closes_def
        chunker_init_def chunk_finish_def make_chunk_def estimate_tokens_def overlap_seed_def
        is_word_def is_terminal_def is_space_def)
  show ?thesis
    using chunk_with_page_info_concat
      [of 3 2 "[\<lparr>page_no = 1, page_text = ''Ab cd. Ef gh. Ij.''\<rparr>,
                \<lparr>page_no = 2, page_text = ''Kl mn.''\<rparr>]"]
    by (simp add: a b chunk_with_page_info_def page_step_def)
qed

section \<open>Properties of the ranking fuser\<close>

subsection \<open>Normalization\<close>

lemma fold_min_eq: "fold (\<lambda>y m. if y < m then y else m) xs (x::real) = Min (insert x (set xs))"
proof (induction xs arbitrary: x)
  case Nil
  then show ?case by simp
next
  case (Cons a xs)
  have "Min (insert (if a < x then a else x) (set xs)) = Min (insert x (insert a (set xs)))"
    by (cases "set xs = {}") (auto simp: min_def)
  then show ?case by (simp add: Cons.IH)
qed

lemma fold_max_eq: "fold (\<lambda>y m. if y > m then y else m) xs (x::real) = Max (insert x (set xs))"
proof (induction xs arbitrary: x)
  case Nil
  then show ?case by simp
next
  case (Cons a xs)
  have "Max (insert (if a > x then a else x) (set xs)) = Max (insert x (insert a (set xs)))"
    by (cases "set xs = {}") (auto simp: max_def)
  then show ?case by (simp add: Cons.IH)
qed

lemma py_min_eq: "xs \<noteq> [] \<Longrightarrow> py_min xs = Min (set xs)"
  by (cases xs) (simp_all add: fold_min_eq)

lemma py_max_eq: "xs \<noteq> [] \<Longrightarrow> py_max xs = Max (set xs)"
  by (cases xs) (simp_all add: fold_max_eq)

lemma item_normalize_scores: "map item (normalize_scores results) = map item results"
  by (simp add: normalize_scores_def Let_def comp_def)

text \<open>
  C2. Min-max scaling of one list, with \<open>lo\<close> and \<open>hi\<close> the least and the greatest
  score: the empty list stays empty; if \<open>hi - lo < 1e-10\<close> every score becomes 1;
  otherwise a score \<open>s\<close> becomes \<open>(s - lo) / (hi - lo)\<close>. Nothing but the score of a
  hit changes. The scores 1, 3, 5 become 0, 1/2, 1 and the scores 4, 4, 4 become 1, 1, 1.
\<close>

theorem normalize_scores_min_max:
  "normalize_scores ([] :: 'a scored list) = []
   \<and> map item (normalize_scores results) = map item results
   \<and> (results \<noteq> [] \<and> Max (set (map score results)) - Min (set (map score results)) < 1 / 10 ^ 10
        \<longrightarrow> map score (normalize_scores results) = replicate (length results) 1)
   \<and> (results \<noteq> [] \<and> \<not> Max (set (map score results)) - Min (set (map score results)) < 1 / 10 ^ 10
        \<longrightarrow> map score (normalize_scores results)
            = map (\<lambda>s. (s - Min (set (map score results)))
                        / (Max (set (map score results)) - Min (set (map score results))))
                (map score results))
   \<and> map score (normalize_scores
        [\<lparr>score = 1, item = a\<rparr>, \<lparr>score = 3, item = b\<rparr>, \<lparr>score = 5, item = c\<rparr>])
        = [0, 1 / 2, 1]
   \<and> map score (normalize_scores
        [\<lparr>score = 4, item = a\<rparr>, \<lparr>score = 4, item = b\<rparr>, \<lparr>score = 4, item = c\<rparr>])
        = [1, 1, 1]"
proof (intro conjI impI)
  show "normalize_scores ([] :: 'a scored list) = []"
    by (simp add: normalize_scores_def)
  show "map item (normalize_scores results) = map item results"
    by (rule item_normalize_scores)
next
  assume a: "results \<noteq> [] \<and> Max (set (map score results)) - Min (set (map score results)) < 1 / 10 ^ 10"
  then have "map score results \<noteq> []" by simp
  note mm = py_min_eq [OF this] py_max_eq [OF this]
  show "map score (normalize_scores results) = replicate (length results) 1"
    using a unfolding normalize_scores_def Let_def mm
    by (simp add: comp_def map_replicate_const)
next
  assume a: "results \<noteq> [] \<and> \<not> Max (set (map score results)) - Min (set (map score results)) < 1 / 10 ^ 10"
  then have "map score results \<noteq> []" by simp
  note mm = py_min_eq [OF this] py_max_eq [OF this]
  show "map score (normalize_scores results)
            = map (\<lambda>s. (s - Min (set (map score results)))
                        / (Max (set (map score results)) - Min (set (map score results))))
                (map score results)"
    using a unfolding normalize_scores_def Let_def mm
    by (simp add: comp_def)
next
  show "map score (normalize_scores
          [\<lparr>score = 1, item = a\<rparr>, \<lparr>score = 3, item = b\<rparr>, \<lparr>score = 5, item = c\<rparr>])
        = [0, 1 / 2, 1]"
    by (simp add: normalize_scores_def)
  show "map score (normalize_scores
          [\<lparr>score = 4, item = a\<rparr>, \<lparr>score = 4, item = b\<rparr>, \<lparr>score = 4, item = c\<rparr>])
        = [1, 1, 1]"
    by (simp add: normalize_scores_def)
qed

theorem normalize_scores_min_max_witness:
  "[\<lparr>score = 2, item = ''a''\<rparr>, \<lparr>score = 6, item = ''b''\<rparr>] \<noteq> []
   \<and> \<not> Max (set (map score [\<lparr>score = 2, item = ''a''\<rparr>, \<lparr>score = 6, item = ''b''\<rparr>]))
        - Min (set (map score [\<lparr>score = 2, item = ''a''\<rparr>, \<lparr>score = 6, item = ''b''\<rparr>]))
        < 1 / 10 ^ 10
   \<and> map score (normalize_scores [\<lparr>score = 2, item = ''a''\<rparr>, \<lparr>score = 6, item = ''b''\<rparr>]) = [0, 1]
   \<and> [\<lparr>score = 7, item = ''c''\<rparr>] \<noteq> []
   \<and> Max (set (map score [\<lparr>score = 7, item = ''c''\<rparr>]))
        - Min (set (map score [\<lparr>score = 7, item = ''c''\<rparr>])) < 1 / 10 ^ 10
   \<and> map score (normalize_scores [\<lparr>score = 7, item = ''c''\<rparr>]) = [1]"
  using normalize_scores_min_max
          [of "[\<lparr>score = 2, item = ''a''\<rparr>, \<lparr>score = 6, item = ''b''\<rparr>]" "''x''" "''y''" "''z''"]
        normalize_scores_min_max [of "[\<lparr>score = 7, item = ''c''\<rparr>]" "''x''" "''y''" "''z''"]
  by simp blast

subsection \<open>The dictionary and its key order\<close>

lemma map_of_dict_set: "map_of (dict_set k v ps) = (map_of ps)(k \<mapsto> v)"
  by (induction ps) (auto simp: fun_eq_iff)

lemma keys_dict_set:
  "map fst (dict_set k v ps) = (if k \<in> set (map fst ps) then map fst ps else map fst ps @ [k])"
  by (induction ps) force+

lemma keys_add_vector:
  "map fst (add_vector h m) =
     (if p_chunk_id (item h) \<in> set (map fst m) then map fst m
      else map fst m @ [p_chunk_id (item h)])"
  by (simp add: add_vector_def Let_def keys_dict_set)

lemma keys_add_keyword:
  "map fst (add_keyword h m) =
     (if k_chunk_id (item h) \<in> set (map fst m) then map fst m
      else map fst m @ [k_chunk_id (item h)])"
  by (simp add: add_keyword_def Let_def keys_dict_set split: option.splits)

lemma keys_fold_generic:
  assumes step: "\<And>h m. map fst (f h m)
                    = (if key h \<in> set (map fst m) then map fst m else map fst m @ [key h])"
  shows "map fst (fold f hs m) =
           map fst m @ first_occurrences (filter (\<lambda>c. c \<notin> set (map fst m)) (map key hs))"
proof (induction hs arbitrary: m)
  case Nil
  then show ?case by simp
next
  case (Cons h hs)
  show ?case
  proof (cases "key h \<in> set (map fst m)")
    case True
    then have "map fst (f h m) = map fst m" by (simp add: step)
    then show ?thesis using True by (simp add: Cons.IH)
  next
    case False
    then have k: "map fst (f h m) = map fst m @ [key h]" by (simp add: step)
    have "filter (\<lambda>c. c \<notin> set (map fst m @ [key h])) (map key hs)
        = filter (\<lambda>d. d \<noteq> key h) (filter (\<lambda>c. c \<notin> set (map fst m)) (map key hs))"
      by (induction hs) auto
    then show ?thesis
      using False by (simp add: Cons.IH k del: set_map set_append)
  qed
qed

lemma first_occurrences_append:
  "first_occurrences (xs @ ys)
     = first_occurrences xs @ first_occurrences (filter (\<lambda>c. c \<notin> set xs) ys)"
proof (induction xs arbitrary: ys rule: first_occurrences.induct)
  case 1
  then show ?case by simp
next
  case (2 c cs)
  have f1: "filter (\<lambda>d. d \<notin> set (filter (\<lambda>d. d \<noteq> c) cs)) (filter (\<lambda>d. d \<noteq> c) ys)
      = filter (\<lambda>d. d \<notin> set (c # cs)) ys"
    by (induction ys) auto
  have f2: "filter (\<lambda>d. d \<noteq> c) (cs @ ys) = filter (\<lambda>d. d \<noteq> c) cs @ filter (\<lambda>d. d \<noteq> c) ys"
    by simp
  show ?case
    unfolding append_Cons first_occurrences.simps f2 2 [of "filter (\<lambda>d. d \<noteq> c) ys"] f1 by simp
qed

lemma set_first_occurrences: "set (first_occurrences cs) = set cs"
  by (induction cs rule: first_occurrences.induct) auto

lemma distinct_first_occurrences: "distinct (first_occurrences cs)"
  by (induction cs rule: first_occurrences.induct) (auto simp: set_first_occurrences)

lemma keys_results_map_of:
  "map fst (results_map_of vs ks) = first_occurrences (vector_hit_ids vs @ keyword_hit_ids ks)"
proof -
  have v: "map fst (fold add_vector vs []) = first_occurrences (vector_hit_ids vs)"
    using keys_fold_generic [of add_vector "\<lambda>h. p_chunk_id (item h)" vs "[]", OF keys_add_vector]
    by (simp add: vector_hit_ids_def)
  have "map fst (results_map_of vs ks) =
      map fst (fold add_vector vs []) @
        first_occurrences (filter (\<lambda>c. c \<notin> set (map fst (fold add_vector vs [])))
                             (keyword_hit_ids ks))"
    unfolding results_map_of_def keyword_hit_ids_def
    by (rule keys_fold_generic [of add_keyword "\<lambda>h. k_chunk_id (item h)", OF keys_add_keyword])
  then show ?thesis
    by (simp add: v first_occurrences_append set_first_occurrences)
qed

lemma distinct_keys_results_map_of: "distinct (map fst (results_map_of vs ks))"
  by (simp add: keys_results_map_of distinct_first_occurrences)

subsection \<open>The entries of the dictionary\<close>

lemma last_hit_snoc:
  "last_hit key (hs @ [h]) c = (if key h = c then Some h else last_hit key hs c)"
  by (simp add: last_hit_def)

lemma last_hit_None: "last_hit key hs c = None \<longleftrightarrow> c \<notin> set (map key hs)"
  by (auto simp: last_hit_def find_None_iff)

lemma map_of_add_vector:
  "map_of (add_vector h m) c
     = (if p_chunk_id (item h) = c then Some (vector_entry h) else map_of m c)"
  by (simp add: add_vector_def Let_def map_of_dict_set vector_entry_def)

lemma map_of_fold_add_vector:
  "map_of (fold add_vector vs m) c =
     (case last_hit (\<lambda>h. p_chunk_id (item h)) vs c of
        Some h \<Rightarrow> Some (vector_entry h) | None \<Rightarrow> map_of m c)"
proof (induction vs arbitrary: m rule: rev_induct)
  case Nil
  then show ?case by (simp add: last_hit_def)
next
  case (snoc h vs)
  show ?case
    by (simp add: last_hit_snoc snoc.IH map_of_add_vector)
qed

lemma map_of_add_keyword:
  "map_of (add_keyword h m) c =
     (if k_chunk_id (item h) = c
      then (case map_of m c of
              Some e \<Rightarrow> Some (e\<lparr>m_keyword_score := score h,
                                m_highlighted := k_highlighted (item h)\<rparr>)
            | None \<Rightarrow> Some \<lparr>m_chunk_id = c, m_document_id = k_document_id (item h),
                m_text = k_text (item h), m_vector_score = 0, m_keyword_score = score h,
                m_highlighted = k_highlighted (item h), m_metadata = k_metadata (item h)\<rparr>)
      else map_of m c)"
  by (simp add: add_keyword_def Let_def map_of_dict_set split: option.splits)

lemma fold_add_keyword_other:
  "c \<notin> set (keyword_hit_ids ks) \<Longrightarrow> map_of (fold add_keyword ks m) c = map_of m c"
  by (induction ks arbitrary: m rule: rev_induct) (auto simp: keyword_hit_ids_def map_of_add_keyword)

lemma fold_add_keyword_None:
  "map_of (fold add_keyword ks m) c = None \<Longrightarrow> map_of m c = None"
  by (induction ks rule: rev_induct) (auto simp: map_of_add_keyword split: if_splits option.splits)

text \<open>The keyword loop never touches the vector score or the base fields of an entry.\<close>

lemma fold_add_keyword_keeps:
  "map_of (fold add_keyword ks m) c = Some e \<Longrightarrow>
     (case map_of m c of
        Some e0 \<Rightarrow> m_vector_score e = m_vector_score e0 \<and> m_document_id e = m_document_id e0
                  \<and> m_text e = m_text e0 \<and> m_metadata e = m_metadata e0
      | None \<Rightarrow> m_vector_score e = 0)"
proof (induction ks arbitrary: e rule: rev_induct)
  case Nil
  then show ?case by simp
next
  case (snoc h ks)
  show ?case
  proof (cases "k_chunk_id (item h) = c")
    case False
    with snoc.prems have "map_of (fold add_keyword ks m) c = Some e"
      by (simp add: map_of_add_keyword)
    then show ?thesis by (rule snoc.IH)
  next
    case True
    show ?thesis
    proof (cases "map_of (fold add_keyword ks m) c")
      case None
      then have "map_of m c = None" by (rule fold_add_keyword_None)
      with snoc.prems True None show ?thesis
        by (auto simp: map_of_add_keyword)
    next
      case (Some e1)
      from snoc.IH [OF Some] snoc.prems True Some show ?thesis
        by (auto simp: map_of_add_keyword split: option.splits)
    qed
  qed
qed

lemma fold_add_keyword_sets:
  "last_hit (\<lambda>h. k_chunk_id (item h)) ks c = Some h \<Longrightarrow>
     \<exists>e. map_of (fold add_keyword ks m) c = Some e \<and> m_keyword_score e = score h
        \<and> m_highlighted e = k_highlighted (item h)"
proof (induction ks rule: rev_induct)
  case Nil
  then show ?case by (simp add: last_hit_def)
next
  case (snoc h' ks)
  show ?case
  proof (cases "k_chunk_id (item h') = c")
    case True
    with snoc.prems have "h = h'" by (simp add: last_hit_snoc)
    then show ?thesis using True
      by (auto simp: map_of_add_keyword split: option.splits)
  next
    case False
    with snoc.prems have "last_hit (\<lambda>h. k_chunk_id (item h)) ks c = Some h"
      by (simp add: last_hit_snoc)
    from snoc.IH [OF this] False show ?thesis
      by (simp add: map_of_add_keyword)
  qed
qed

lemma vector_hit_ids_normalize: "vector_hit_ids (normalize_scores vs) = vector_hit_ids vs"
proof -
  have "map p_chunk_id (map item (normalize_scores vs)) = map p_chunk_id (map item vs)"
    by (simp only: item_normalize_scores)
  then show ?thesis by (simp add: vector_hit_ids_def comp_def)
qed

lemma keyword_hit_ids_normalize: "keyword_hit_ids (normalize_scores ks) = keyword_hit_ids ks"
proof -
  have "map k_chunk_id (map item (normalize_scores ks)) = map k_chunk_id (map item ks)"
    by (simp only: item_normalize_scores)
  then show ?thesis by (simp add: keyword_hit_ids_def comp_def)
qed

lemma results_map_entry:
  assumes "(c, e) \<in> set (results_map_of vs ks)"
  shows "c \<in> set (vector_hit_ids vs) \<or> c \<in> set (keyword_hit_ids ks)"
    and "c \<notin> set (keyword_hit_ids ks) \<Longrightarrow> m_keyword_score e = 0 \<and> m_highlighted e = None"
    and "c \<notin> set (vector_hit_ids vs) \<Longrightarrow> m_vector_score e = 0"
    and "last_hit (\<lambda>h. p_chunk_id (item h)) vs c = Some hv \<Longrightarrow>
           m_vector_score e = score hv \<and> m_document_id e = p_document_id (item hv)
           \<and> m_text e = p_text (item hv) \<and> m_metadata e = p_rest (item hv)"
    and "last_hit (\<lambda>h. k_chunk_id (item h)) ks c = Some hk \<Longrightarrow>
           m_keyword_score e = score hk \<and> m_highlighted e = k_highlighted (item hk)"
proof -
  have m: "map_of (results_map_of vs ks) c = Some e"
    using assms distinct_keys_results_map_of [of vs ks] by simp
  have "c \<in> set (map fst (results_map_of vs ks))" using assms by force
  then show "c \<in> set (vector_hit_ids vs) \<or> c \<in> set (keyword_hit_ids ks)"
    by (simp add: keys_results_map_of set_first_occurrences)
  note keep = fold_add_keyword_keeps [OF m [unfolded results_map_of_def]]
  show "m_keyword_score e = 0 \<and> m_highlighted e = None" if "c \<notin> set (keyword_hit_ids ks)"
  proof -
    have "map_of (fold add_vector vs []) c = Some e"
      using m fold_add_keyword_other [OF that] by (simp add: results_map_of_def)
    then show ?thesis
      by (auto simp: map_of_fold_add_vector vector_entry_def split: option.splits)
  qed
  show "m_vector_score e = 0" if "c \<notin> set (vector_hit_ids vs)"
  proof -
    have "last_hit (\<lambda>h. p_chunk_id (item h)) vs c = None"
      using that by (simp add: last_hit_None vector_hit_ids_def)
    then have "map_of (fold add_vector vs []) c = None"
      by (simp add: map_of_fold_add_vector)
    with keep show ?thesis by simp
  qed
  show "m_vector_score e = score hv \<and> m_document_id e = p_document_id (item hv)
           \<and> m_text e = p_text (item hv) \<and> m_metadata e = p_rest (item hv)"
    if "last_hit (\<lambda>h. p_chunk_id (item h)) vs c = Some hv"
  proof -
    have "map_of (fold add_vector vs []) c = Some (vector_entry hv)"
      using that by (simp add: map_of_fold_add_vector)
    with keep show ?thesis by (simp add: vector_entry_def)
  qed
  show "m_keyword_score e = score hk \<and> m_highlighted e = k_highlighted (item hk)"
    if "last_hit (\<lambda>h. k_chunk_id (item h)) ks c = Some hk"
    using fold_add_keyword_sets [OF that, of "fold add_vector vs []"] m
    by (auto simp: results_map_of_def)
qed

lemma combine_results_entry:
  assumes "r \<in> set (combine_results V K w)"
  shows "\<exists>e. (r_chunk_id r, e) \<in> set (results_map_of (normalize_scores V) (normalize_scores K))
           \<and> r = combine_entry w (1 - w) (r_chunk_id r, e)"
proof -
  from assms obtain c e
    where ce: "(c, e) \<in> set (results_map_of (normalize_scores V) (normalize_scores K))"
      and r: "r = combine_entry w (1 - w) (c, e)"
    by (auto simp: combine_results_def Let_def)
  have "r_chunk_id r = c" by (simp add: r combine_entry_def)
  with ce r show ?thesis by auto
qed

lemma combine_results_ids:
  "map r_chunk_id (combine_results V K w) = first_occurrences (vector_hit_ids V @ keyword_hit_ids K)"
proof -
  have "map r_chunk_id (combine_results V K w)
      = map fst (results_map_of (normalize_scores V) (normalize_scores K))"
    by (simp add: combine_results_def Let_def combine_entry_def comp_def split_def)
  then show ?thesis
    by (simp add: keys_results_map_of vector_hit_ids_normalize keyword_hit_ids_normalize)
qed

subsection \<open>The merge\<close>

text \<open>
  C1. The merged entries are exactly the fragments of the two lists. For every merged
  entry the combined score is \<open>vector_score * w + keyword_score * (1 - w)\<close>; a fragment
  that is not in the keyword list has keyword score 0, one that is not in the vector
  list has vector score 0; a fragment of the vector list carries the normalized score
  of its (last) vector hit, and a fragment of the keyword list carries the normalized
  score and the highlighted text of its (last) keyword hit, so a fragment of both lists
  keeps both scores and the keyword list's highlight.
\<close>

theorem combine_results_merge:
  "set (map r_chunk_id (combine_results V K w)) = set (vector_hit_ids V) \<union> set (keyword_hit_ids K)
   \<and> (\<forall>r \<in> set (combine_results V K w).
        r_score r = r_vector_score r * w + r_keyword_score r * (1 - w)
      \<and> (r_chunk_id r \<notin> set (keyword_hit_ids K) \<longrightarrow> r_keyword_score r = 0)
      \<and> (r_chunk_id r \<notin> set (vector_hit_ids V) \<longrightarrow> r_vector_score r = 0)
      \<and> (\<forall>h. last_hit (\<lambda>h. p_chunk_id (item h)) (normalize_scores V) (r_chunk_id r) = Some h
             \<longrightarrow> r_vector_score r = score h)
      \<and> (\<forall>h. last_hit (\<lambda>h. k_chunk_id (item h)) (normalize_scores K) (r_chunk_id r) = Some h
             \<longrightarrow> r_keyword_score r = score h \<and> r_highlighted_text r = k_highlighted (item h)))"
proof (intro conjI ballI)
  show "set (map r_chunk_id (combine_results V K w)) = set (vector_hit_ids V) \<union> set (keyword_hit_ids K)"
    by (simp only: combine_results_ids set_first_occurrences set_append)
next
  fix r assume "r \<in> set (combine_results V K w)"
  then obtain e
    where e: "(r_chunk_id r, e) \<in> set (results_map_of (normalize_scores V) (normalize_scores K))"
      and r: "r = combine_entry w (1 - w) (r_chunk_id r, e)"
    using combine_results_entry by blast
  note p = results_map_entry [OF e, unfolded vector_hit_ids_normalize keyword_hit_ids_normalize]
  have f: "r_vector_score r = m_vector_score e" "r_keyword_score r = m_keyword_score e"
    "r_highlighted_text r = m_highlighted e"
    "r_score r = m_vector_score e * w + m_keyword_score e * (1 - w)"
    by (subst r, simp add: combine_entry_def)+
  show "r_score r = r_vector_score r * w + r_keyword_score r * (1 - w)"
    by (simp add: f)
  show "r_chunk_id r \<notin> set (keyword_hit_ids K) \<longrightarrow> r_keyword_score r = 0"
    using p(2) by (simp add: f)
  show "r_chunk_id r \<notin> set (vector_hit_ids V) \<longrightarrow> r_vector_score r = 0"
    using p(3) by (simp add: f)
  show "\<forall>h. last_hit (\<lambda>h. p_chunk_id (item h)) (normalize_scores V) (r_chunk_id r) = Some h
             \<longrightarrow> r_vector_score r = score h"
    using p(4) by (simp add: f)
  show "\<forall>h. last_hit (\<lambda>h. k_chunk_id (item h)) (normalize_scores K) (r_chunk_id r) = Some h
             \<longrightarrow> r_keyword_score r = score h \<and> r_highlighted_text r = k_highlighted (item h)"
    using p(5) by (simp add: f)
qed

theorem combine_results_merge_witness:
  "(let out = combine_results
        [\<lparr>score = 2 / 10, item = \<lparr>p_chunk_id = 1, p_document_id = 7, p_text = ''alpha'', p_rest = []\<rparr>\<rparr>]
        [\<lparr>score = 8 / 10, item = \<lparr>k_chunk_id = 1, k_document_id = 7, k_text = ''alpha'',
            k_highlighted = Some ''<em>alpha</em>'', k_metadata = []\<rparr>\<rparr>,
         \<lparr>score = 4 / 10, item = \<lparr>k_chunk_id = 2, k_document_id = 7, k_text = ''beta'',
            k_highlighted = None, k_metadata = []\<rparr>\<rparr>] (7 / 10)
    in out \<noteq> [] \<and> r_chunk_id (out ! 1) = 2 \<and> r_vector_score (out ! 1) = 0
       \<and> r_chunk_id (out ! 0) = 1 \<and> r_vector_score (out ! 0) = 1 \<and> r_keyword_score (out ! 0) = 1
       \<and> r_highlighted_text (out ! 0) = Some ''<em>alpha</em>''
       \<and> (\<forall>r \<in> set out. r_score r = r_vector_score r * (7 / 10) + r_keyword_score r * (1 - 7 / 10)))"
  using combine_results_merge
    [of "[\<lparr>score = 2 / 10, item = \<lparr>p_chunk_id = 1, p_document_id = 7, p_text = ''alpha'', p_rest = []\<rparr>\<rparr>]"
        "[\<lparr>score = 8 / 10, item = \<lparr>k_chunk_id = 1, k_document_id = 7, k_text = ''alpha'',
            k_highlighted = Some ''<em>alpha</em>'', k_metadata = []\<rparr>\<rparr>,
         \<lparr>score = 4 / 10, item = \<lparr>k_chunk_id = 2, k_document_id = 7, k_text = ''beta'',
            k_highlighted = None, k_metadata = []\<rparr>\<rparr>]" "7 / 10"]
  by (simp add: combine_results_def normalize_scores_def results_map_of_def
      add_vector_def add_keyword_def combine_entry_def)

lemma last_hit_item:
  assumes "map item xs = map item ys" and "last_hit (\<lambda>h. f (item h)) ys c = Some h"
  shows "\<exists>h'. last_hit (\<lambda>h. f (item h)) xs c = Some h' \<and> item h' = item h"
  using assms
proof (induction xs arbitrary: ys rule: rev_induct)
  case Nil
  then show ?case by (simp add: last_hit_def)
next
  case (snoc x xs)
  from snoc.prems(1) obtain y ys'
    where ys: "ys = ys' @ [y]" and i: "item x = item y" "map item xs = map item ys'"
    by (cases ys rule: rev_cases) auto
  show ?case
  proof (cases "f (item x) = c")
    case True
    then show ?thesis using snoc.prems(2) i by (simp add: ys last_hit_snoc)
  next
    case False
    then have "last_hit (\<lambda>h. f (item h)) ys' c = Some h"
      using snoc.prems(2) i by (simp add: ys last_hit_snoc)
    from snoc.IH [OF i(2) this] False show ?thesis by (simp add: last_hit_snoc)
  qed
qed

lemma distinct_map_filter_one:
  "distinct (map f xs) \<Longrightarrow> c \<in> f ` set xs \<Longrightarrow> length (filter (\<lambda>x. f x = c) xs) = 1"
proof (induction xs)
  case Nil
  then show ?case by simp
next
  case (Cons x xs)
  show ?case
  proof (cases "f x = c")
    case True
    from Cons.prems(1) have "f x \<notin> f ` set xs" by simp
    with True have "\<forall>y \<in> set xs. f y \<noteq> c" by blast
    then have "filter (\<lambda>x. f x = c) xs = []"
      by (simp add: filter_empty_conv)
    with True show ?thesis by simp
  next
    case False
    with Cons.prems have "distinct (map f xs)" "c \<in> f ` set xs" by auto
    from Cons.IH [OF this] False show ?thesis by simp
  qed
qed

text \<open>
  C10. The fragment identities of the fused list are those of the two hit lists, each
  once, in the order of first occurrence (vector list, then keyword list): every
  fragment of either list yields exactly one merged entry, whatever is repeated within or
  across the lists, and no other entry exists. An entry whose fragment is in the vector
  list takes text, document id and metadata from the (last) vector hit of that fragment.
\<close>

theorem combine_results_distinct:
  "map r_chunk_id (combine_results V K w) = first_occurrences (vector_hit_ids V @ keyword_hit_ids K)
   \<and> distinct (map r_chunk_id (combine_results V K w))
   \<and> set (map r_chunk_id (combine_results V K w)) = set (vector_hit_ids V) \<union> set (keyword_hit_ids K)
   \<and> (\<forall>c \<in> set (vector_hit_ids V) \<union> set (keyword_hit_ids K).
        length (filter (\<lambda>r. r_chunk_id r = c) (combine_results V K w)) = 1)
   \<and> (\<forall>r \<in> set (combine_results V K w).
        \<forall>h. last_hit (\<lambda>h. p_chunk_id (item h)) V (r_chunk_id r) = Some h
          \<longrightarrow> r_text r = p_text (item h) \<and> r_document_id r = p_document_id (item h)
              \<and> r_extra r = p_rest (item h))"
proof (intro conjI ballI allI impI)
  show ids: "map r_chunk_id (combine_results V K w)
      = first_occurrences (vector_hit_ids V @ keyword_hit_ids K)"
    by (rule combine_results_ids)
  show d: "distinct (map r_chunk_id (combine_results V K w))"
    by (simp only: combine_results_ids distinct_first_occurrences)
  show st: "set (map r_chunk_id (combine_results V K w))
      = set (vector_hit_ids V) \<union> set (keyword_hit_ids K)"
    by (simp only: combine_results_ids set_first_occurrences set_append)
  show "length (filter (\<lambda>r. r_chunk_id r = c) (combine_results V K w)) = 1"
    if "c \<in> set (vector_hit_ids V) \<union> set (keyword_hit_ids K)" for c
  proof -
    from that st have "c \<in> r_chunk_id ` set (combine_results V K w)" by simp
    with d show ?thesis by (rule distinct_map_filter_one)
  qed
next
  fix r h assume rin: "r \<in> set (combine_results V K w)"
    and h: "last_hit (\<lambda>h. p_chunk_id (item h)) V (r_chunk_id r) = Some h"
  from rin obtain e
    where e: "(r_chunk_id r, e) \<in> set (results_map_of (normalize_scores V) (normalize_scores K))"
      and r: "r = combine_entry w (1 - w) (r_chunk_id r, e)"
    using combine_results_entry by blast
  from last_hit_item [OF item_normalize_scores h] obtain h' where
    h': "last_hit (\<lambda>h. p_chunk_id (item h)) (normalize_scores V) (r_chunk_id r) = Some h'"
        "item h' = item h"
    by auto
  note p = results_map_entry(4) [OF e h'(1)]
  have f: "r_text r = m_text e" "r_document_id r = m_document_id e" "r_extra r = m_metadata e"
    by (subst r, simp add: combine_entry_def)+
  show "r_text r = p_text (item h)" "r_document_id r = p_document_id (item h)"
    "r_extra r = p_rest (item h)"
    using p h'(2) by (simp_all add: f)
qed

theorem combine_results_distinct_witness:
  "(let V = [\<lparr>score = 3, item = \<lparr>p_chunk_id = 1, p_document_id = 7, p_text = ''old'', p_rest = []\<rparr>\<rparr>,
             \<lparr>score = 5, item = \<lparr>p_chunk_id = 1, p_document_id = 7, p_text = ''new'', p_rest = []\<rparr>\<rparr>];
        K = [\<lparr>score = 8, item = \<lparr>k_chunk_id = 1, k_document_id = 9, k_text = ''kw'',
                k_highlighted = None, k_metadata = []\<rparr>\<rparr>,
             \<lparr>score = 4, item = \<lparr>k_chunk_id = 2, k_document_id = 9, k_text = ''only'',
                k_highlighted = None, k_metadata = []\<rparr>\<rparr>,
             \<lparr>score = 2, item = \<lparr>k_chunk_id = 2, k_document_id = 9, k_text = ''again'',
                k_highlighted = None, k_metadata = []\<rparr>\<rparr>];
        out = combine_results V K (1 / 2)
    in vector_hit_ids V = [1, 1] \<and> keyword_hit_ids K = [1, 2, 2]
       \<and> map r_chunk_id out = [1, 2]
       \<and> length (filter (\<lambda>r. r_chunk_id r = 2) out) = 1
       \<and> last_hit (\<lambda>h. p_chunk_id (item h)) V 1 = Some (V ! 1)
       \<and> r_text (out ! 0) = ''new'' \<and> r_document_id (out ! 0) = 7
       \<and> r_text (out ! 1) = ''only'')"
  using combine_results_distinct
    [of "[\<lparr>score = 3, item = \<lparr>p_chunk_id = 1, p_document_id = 7, p_text = ''old'', p_rest = []\<rparr>\<rparr>,
          \<lparr>score = 5, item = \<lparr>p_chunk_id = 1, p_document_id = 7, p_text = ''new'', p_rest = []\<rparr>\<rparr>]"
        "[\<lparr>score = 8, item = \<lparr>k_chunk_id = 1, k_document_id = 9, k_text = ''kw'',
                k_highlighted = None, k_metadata = []\<rparr>\<rparr>,
          \<lparr>score = 4, item = \<lparr>k_chunk_id = 2, k_document_id = 9, k_text = ''only'',
                k_highlighted = None, k_metadata = []\<rparr>\<rparr>,
          \<lparr>score = 2, item = \<lparr>k_chunk_id = 2, k_document_id = 9, k_text = ''again'',
                k_highlighted = None, k_metadata = []\<rparr>\<rparr>]" "1 / 2"]
  by (simp add: combine_results_def normalize_scores_def results_map_of_def
      add_vector_def add_keyword_def combine_entry_def last_hit_def
      vector_hit_ids_def keyword_hit_ids_def)

subsection \<open>Sorting\<close>




section \<open>Properties of the similarity\<close>

lemma sum_squares_zero: "sum_list (map (\<lambda>x. x * x) a) = 0 \<Longrightarrow> \<forall>x \<in> set a. x = (0::real)"
proof (induction a)
  case Nil
  then show ?case by simp
next
  case (Cons x a)
  have nn: "0 \<le> sum_list (map (\<lambda>x. x * x) a)"
    by (rule sum_list_nonneg) auto
  have "x * x + sum_list (map (\<lambda>x. x * x) a) = 0" using Cons.prems by simp
  with nn have "x * x = 0" "sum_list (map (\<lambda>x. x * x) a) = 0"
    using zero_le_square [of x] by linarith+
  then show ?case using Cons.IH by simp
qed

lemma linalg_norm_zero: "linalg_norm a = 0 \<Longrightarrow> \<forall>x \<in> set a. x = 0"
  using sum_squares_zero [of a] by (simp add: linalg_norm_def)

lemma np_dot_zero_left: "\<forall>x \<in> set a. x = 0 \<Longrightarrow> np_dot a b = 0"
  unfolding np_dot_def by (induction a arbitrary: b) (auto simp: zip_Cons1 split: list.splits)

lemma np_dot_zero_right: "\<forall>x \<in> set b. x = 0 \<Longrightarrow> np_dot a b = 0"
  unfolding np_dot_def by (induction a arbitrary: b) (auto simp: zip_Cons1 split: list.splits)

text \<open>
  C7. The claim is that a vector of zero norm makes \<open>similarity\<close> signal an error. The
  source divides without looking at the norms: for the vectors \<open>[0]\<close> and \<open>[1]\<close> the
  norm of the first is zero and the call returns \<open>nan\<close>.
\<close>

theorem similarity_zero_norm_returns_nan:
  "linalg_norm [0] = 0 \<and> similarity [0] [1] = Inr NaN"
  by (simp add: similarity_def np_true_divide_def linalg_norm_def np_dot_def)

text \<open>
  C7, as the source has it. For two vectors of the same length, \<open>similarity\<close> returns
  \<open>dot(a, b) / (norm(a) * norm(b))\<close> when both norms are non-zero, and returns \<open>nan\<close>,
  without an error, when either norm is zero.
\<close>

theorem similarity_cosine_or_nan:
  "length a = length b \<Longrightarrow>
     similarity a b =
       (if linalg_norm a = 0 \<or> linalg_norm b = 0 then Inr NaN
        else Inr (Finite (np_dot a b / (linalg_norm a * linalg_norm b))))"
proof -
  assume len: "length a = length b"
  show ?thesis
  proof (cases "linalg_norm a = 0 \<or> linalg_norm b = 0")
    case True
    then have "np_dot a b = 0"
      using linalg_norm_zero np_dot_zero_left np_dot_zero_right by blast
    with True len show ?thesis
      by (auto simp: similarity_def np_true_divide_def)
  next
    case False
    with len show ?thesis by (simp add: similarity_def np_true_divide_def)
  qed
qed

theorem similarity_cosine_or_nan_witness:
  "length [3, 4 :: real] = length [4, 3 :: real]
   \<and> similarity [3, 4] [4, 3] = Inr (Finite (24 / 25))"
proof -
  have n1: "linalg_norm [3, 4] = 5"
    by (simp add: linalg_norm_def real_sqrt_unique)
  have n2: "linalg_norm [4, 3] = 5"
    by (simp add: linalg_norm_def real_sqrt_unique)
  show ?thesis
    using similarity_cosine_or_nan [of "[3, 4]" "[4, 3]"] by (simp add: n1 n2 np_dot_def)
qed

section \<open>Properties of the ingestion orchestrator\<close>

lemma fetch_and_parse_extraction_error:
  assumes "split_object_name (storage_path d) = Inr obj" and "download_file svc obj = Inr bytes"
    and "extract_text svc bytes = Inl msg
         \<or> (\<exists>r. extract_text svc bytes = Inr r \<and> extract_text_by_page svc bytes = Inl msg)"
  shows "fetch_and_parse svc d = Inl msg"
  using assms by (auto simp: fetch_and_parse_def split: sum.splits prod.splits)

text \<open>
  C5. For a stored document whose file is fetched and whose text extraction (of the full
  text or of the pages) raises with message \<open>msg\<close>, the task ends with the document in
  state \<open>failed\<close> and \<open>error_message = msg\<close>, nothing else in the tables changed: no
  chunk row is created. The task returns the error with the same message.
\<close>

theorem extraction_failure_marks_failed:
  assumes "documents t doc_id = Some d"
    and "split_object_name (storage_path d) = Inr obj"
    and "download_file svc obj = Inr bytes"
    and "extract_text svc bytes = Inl msg
         \<or> (\<exists>r. extract_text svc bytes = Inr r \<and> extract_text_by_page svc bytes = Inl msg)"
  shows "process_document_task svc doc_id t =
           (t\<lparr>documents := (documents t)(doc_id \<mapsto> d\<lparr>status := FAILED, error_message := Some msg\<rparr>)\<rparr>,
            Error msg)
         \<and> chunk_rows (fst (process_document_task svc doc_id t)) = chunk_rows t"
proof -
  have f: "fetch_and_parse svc (d\<lparr>status := PROCESSING\<rparr>) = Inl msg"
    using assms(2-4) by (intro fetch_and_parse_extraction_error [of _ obj _ bytes]) simp_all
  have "process_document_task svc doc_id t =
           (t\<lparr>documents := (documents t)(doc_id \<mapsto> d\<lparr>status := FAILED, error_message := Some msg\<rparr>)\<rparr>,
            Error msg)"
    using assms(1)
    by (simp add: process_document_task_def run_pipeline_def f commit_def put_document_def)
  then show ?thesis by simp
qed

theorem extraction_failure_marks_failed_witness:
  "(let svc = \<lparr>download_file = (\<lambda>name. Inr ''%PDF''),
               extract_text = (\<lambda>b. Inl ''cannot open broken document''),
               extract_text_by_page = (\<lambda>b. Inr []),
               encode_batch = (\<lambda>ts. Inr []),
               add_vectors = (\<lambda>vs ps. Inr []),
               index_chunk = (\<lambda>c d t m. Inr ''es-1''),
               service_chunk_size = 750, service_overlap = 100\<rparr>;
        d = \<lparr>storage_path = ''documents/report.pdf'', title = None, company = None,
             document_type = None, document_date = None, page_count = None,
             status = PENDING, error_message = None, chunk_count = 0\<rparr>;
        t = \<lparr>documents = [1 \<mapsto> d], chunk_rows = [], next_chunk_id = 1\<rparr>
    in documents t 1 = Some d
       \<and> split_object_name (storage_path d) = Inr ''report.pdf''
       \<and> download_file svc ''report.pdf'' = Inr ''%PDF''
       \<and> extract_text svc ''%PDF'' = Inl ''cannot open broken document''
       \<and> snd (process_document_task svc 1 t) = Error ''cannot open broken document''
       \<and> chunk_rows (fst (process_document_task svc 1 t)) = []
       \<and> documents (fst (process_document_task svc 1 t)) 1
            = Some (d\<lparr>status := FAILED, error_message := Some ''cannot open broken document''\<rparr>))"
  using extraction_failure_marks_failed
    [of "\<lparr>documents = [1 \<mapsto> \<lparr>storage_path = ''documents/report.pdf'', title = None, company = None,
             document_type = None, document_date = None, page_count = None,
             status = PENDING, error_message = None, chunk_count = 0\<rparr>],
          chunk_rows = [], next_chunk_id = 1\<rparr>"
      1 "\<lparr>storage_path = ''documents/report.pdf'', title = None, company = None,
             document_type = None, document_date = None, page_count = None,
             status = PENDING, error_message = None, chunk_count = 0\<rparr>"
      "''report.pdf''"
      "\<lparr>download_file = (\<lambda>name. Inr ''%PDF''),
               extract_text = (\<lambda>b. Inl ''cannot open broken document''),
               extract_text_by_page = (\<lambda>b. Inr []),
               encode_batch = (\<lambda>ts. Inr []),
               add_vectors = (\<lambda>vs ps. Inr []),
               index_chunk = (\<lambda>c d t m. Inr ''es-1''),
               service_chunk_size = 750, service_overlap = 100\<rparr>"
      "''%PDF''" "''cannot open broken document''"]
  by (simp add: split_object_name_def Let_def)

end
